theory Spec2Isabelle
  imports Complex_Main
begin
section \<open>Double-precision numbers\<close>

text \<open>
  The code computes distances in the C++ type \<^verbatim>\<open>double\<close>.  A \<open>double\<close> is a value of the
  IEEE 754 binary64 format: a finite number with a 53-bit significand and an exponent between
  \<open>-1022\<close> and \<open>1023\<close>, an infinity, or a NaN.  The sign of a zero is not kept: the embedded
  code never divides by a zero or otherwise observes it.  A finite value is kept as the real
  number it denotes.
\<close>

datatype double = Finite real | PlusInfinity | MinusInfinity | NaN


text \<open>The number of binary digits of a natural number.\<close>

fun bitlength :: "nat \<Rightarrow> nat" where
  "bitlength n = (if n = 0 then 0 else Suc (bitlength (n div 2)))"

declare bitlength.simps [simp del]














section \<open>Functors, particle cells and the cell functor\<close>

text \<open>
  A pairwise functor (\<^verbatim>\<open>Functor.h\<close>) is an object with an AoS entry point and two SoA entry
  points that mutate the functor's own state or the data reachable from it.  The state is
  threaded explicitly: every entry point maps the state before the call to the state after.
\<close>

record ('p, 'soa, 's) Functor =
  AoSFunctor :: "'p \<Rightarrow> 'p \<Rightarrow> bool \<Rightarrow> 's \<Rightarrow> 's"
  SoAFunctor :: "'soa \<Rightarrow> bool \<Rightarrow> 's \<Rightarrow> 's"
  SoAFunctorPair :: "'soa \<Rightarrow> 'soa \<Rightarrow> bool \<Rightarrow> 's \<Rightarrow> 's"

text \<open>
  A particle cell owns its particles in iteration order and carries a side-car SoA buffer
  (\<^verbatim>\<open>_particleSoABuffer\<close>).  A \<^verbatim>\<open>SingleCellIterator\<close> is an index into the particle
  sequence: \<^verbatim>\<open>begin()\<close> is index 0, \<^verbatim>\<open>isValid()\<close> is \<open>index < numParticles\<close>.
\<close>

record ('p, 'soa) ParticleCell =
  particles :: "'p list"
  particleSoABuffer :: "'soa"

definition numParticles :: "('p, 'soa) ParticleCell \<Rightarrow> nat" where
  "numParticles cell = length (particles cell)"

text \<open>The mock functor of the test suite: it only records the calls it receives.\<close>

datatype ('p, 'soa) FunctorCall =
  AoSCall 'p 'p bool
  | SoACall 'soa bool
  | SoAPairCall 'soa 'soa bool

definition MFunctor :: "('p, 'soa, ('p, 'soa) FunctorCall list) Functor" where
  "MFunctor = \<lparr>
     AoSFunctor = (\<lambda>i j newton3 calls. calls @ [AoSCall i j newton3]),
     SoAFunctor = (\<lambda>soa newton3 calls. calls @ [SoACall soa newton3]),
     SoAFunctorPair = (\<lambda>soa1 soa2 newton3 calls. calls @ [SoAPairCall soa1 soa2 newton3]) \<rparr>"

subsection \<open>\<^verbatim>\<open>CellFunctor.h\<close>\<close>

text \<open>
  \<^verbatim>\<open>processCellAoSN3\<close>: the inner iterator starts one past the outer one.  The source calls
  \<^verbatim>\<open>AoSFunctor(p1, p2)\<close> with two arguments here and in \<^verbatim>\<open>processCellPairAoSN3\<close>; the third
  is the default argument \<^verbatim>\<open>newton3 = true\<close> of the functor's declaration.
\<close>

definition processCellAoSN3 ::
  "('p, 'soa, 's) Functor \<Rightarrow> ('p, 'soa) ParticleCell \<Rightarrow> 's \<Rightarrow> 's" where
  "processCellAoSN3 f cell =
     fold (\<lambda>outer.
        let p1 = particles cell ! outer in
        fold (\<lambda>inner. AoSFunctor f p1 (particles cell ! inner) True)
             [Suc outer ..< numParticles cell])
       [0 ..< numParticles cell]"

text \<open>
  \<^verbatim>\<open>processCellAoSNoN3\<close>: the inner iterator runs from \<^verbatim>\<open>begin()\<close> up to the outer
  iterator, skips it, and runs on to the end of the cell.
\<close>

definition processCellAoSNoN3 ::
  "('p, 'soa, 's) Functor \<Rightarrow> ('p, 'soa) ParticleCell \<Rightarrow> 's \<Rightarrow> 's" where
  "processCellAoSNoN3 f cell =
     fold (\<lambda>outer.
        let p1 = particles cell ! outer in
        fold (\<lambda>inner. AoSFunctor f p1 (particles cell ! inner) False)
             [Suc outer ..< numParticles cell]
        \<circ> fold (\<lambda>inner. AoSFunctor f p1 (particles cell ! inner) False)
             [0 ..< outer])
       [0 ..< numParticles cell]"

definition processCellPairAoSN3 ::
  "('p, 'soa, 's) Functor \<Rightarrow> ('p, 'soa) ParticleCell \<Rightarrow> ('p, 'soa) ParticleCell \<Rightarrow> 's \<Rightarrow> 's" where
  "processCellPairAoSN3 f cell1 cell2 =
     fold (\<lambda>outer.
        let p1 = particles cell1 ! outer in
        fold (\<lambda>inner. AoSFunctor f p1 (particles cell2 ! inner) True)
             [0 ..< numParticles cell2])
       [0 ..< numParticles cell1]"

definition processCellPairAoSNoN3 ::
  "('p, 'soa, 's) Functor \<Rightarrow> ('p, 'soa) ParticleCell \<Rightarrow> ('p, 'soa) ParticleCell \<Rightarrow> 's \<Rightarrow> 's" where
  "processCellPairAoSNoN3 f cell1 cell2 =
     fold (\<lambda>outer.
        let p1 = particles cell1 ! outer in
        fold (\<lambda>inner.
                let p2 = particles cell2 ! inner in
                AoSFunctor f p2 p1 False \<circ> AoSFunctor f p1 p2 False)
             [0 ..< numParticles cell2])
       [0 ..< numParticles cell1]"

definition processCellPairSoAN3 ::
  "('p, 'soa, 's) Functor \<Rightarrow> ('p, 'soa) ParticleCell \<Rightarrow> ('p, 'soa) ParticleCell \<Rightarrow> 's \<Rightarrow> 's" where
  "processCellPairSoAN3 f cell1 cell2 =
     SoAFunctorPair f (particleSoABuffer cell1) (particleSoABuffer cell2) True"

definition processCellPairSoANoN3 ::
  "('p, 'soa, 's) Functor \<Rightarrow> ('p, 'soa) ParticleCell \<Rightarrow> ('p, 'soa) ParticleCell \<Rightarrow> 's \<Rightarrow> 's" where
  "processCellPairSoANoN3 f cell1 cell2 =
     SoAFunctorPair f (particleSoABuffer cell2) (particleSoABuffer cell1) False
     \<circ> SoAFunctorPair f (particleSoABuffer cell1) (particleSoABuffer cell2) False"

definition processCellSoAN3 ::
  "('p, 'soa, 's) Functor \<Rightarrow> ('p, 'soa) ParticleCell \<Rightarrow> 's \<Rightarrow> 's" where
  "processCellSoAN3 f cell = SoAFunctor f (particleSoABuffer cell) True"

definition processCellSoANoN3 ::
  "('p, 'soa, 's) Functor \<Rightarrow> ('p, 'soa) ParticleCell \<Rightarrow> 's \<Rightarrow> 's" where
  "processCellSoANoN3 f cell = SoAFunctor f (particleSoABuffer cell) False"

text \<open>The public entry points dispatch on the two template flags.\<close>

definition processCell ::
  "bool \<Rightarrow> bool \<Rightarrow> ('p, 'soa, 's) Functor \<Rightarrow> ('p, 'soa) ParticleCell \<Rightarrow> 's \<Rightarrow> 's" where
  "processCell useSoA useNewton3 f cell =
     (if useSoA then
        (if useNewton3 then processCellSoAN3 f cell else processCellSoANoN3 f cell)
      else
        (if useNewton3 then processCellAoSN3 f cell else processCellAoSNoN3 f cell))"

definition processCellPair ::
  "bool \<Rightarrow> bool \<Rightarrow> ('p, 'soa, 's) Functor \<Rightarrow> ('p, 'soa) ParticleCell \<Rightarrow> ('p, 'soa) ParticleCell
     \<Rightarrow> 's \<Rightarrow> 's" where
  "processCellPair useSoA useNewton3 f cell1 cell2 =
     (if useSoA then
        (if useNewton3 then processCellPairSoAN3 f cell1 cell2
         else processCellPairSoANoN3 f cell1 cell2)
      else
        (if useNewton3 then processCellPairAoSN3 f cell1 cell2
         else processCellPairAoSNoN3 f cell1 cell2))"


section \<open>Exceptions\<close>

text \<open>
  \<^verbatim>\<open>utils/ExceptionHandler.h\<close>.  An \<^verbatim>\<open>AutoPasException\<close> carries a description; here the
  format string and its arguments are kept apart.  \<^verbatim>\<open>ExceptionHandler::exception\<close>
  consults the configured behaviour: only \<^verbatim>\<open>throwException\<close> throws, \<^verbatim>\<open>printAbort\<close> ends
  the process, \<^verbatim>\<open>ignore\<close> returns to the caller, and \<^verbatim>\<open>printCustomAbortFunction\<close> runs a
  user-supplied function, which either returns or ends the call itself.
\<close>

datatype FormatArg = ArgNat nat | ArgString string

datatype AutoPasException = AutoPasException string "FormatArg list"

datatype ExceptionBehavior = ignore | throwException | printAbort | printCustomAbortFunction

datatype failure = Thrown AutoPasException | Aborted

record ExceptionHandler =
  behavior :: ExceptionBehavior
  customAbortFunction :: "failure option"

definition nonThrowException :: "ExceptionHandler \<Rightarrow> AutoPasException \<Rightarrow> failure option" where
  "nonThrowException h e =
     (case behavior h of
        ignore \<Rightarrow> None
      | printAbort \<Rightarrow> Some Aborted
      | printCustomAbortFunction \<Rightarrow> customAbortFunction h
      | throwException \<Rightarrow> None)"

text \<open>The result is \<open>None\<close> when the call returns normally to the code that signalled.\<close>

definition exception :: "ExceptionHandler \<Rightarrow> AutoPasException \<Rightarrow> failure option" where
  "exception h e =
     (case behavior h of
        throwException \<Rightarrow> Some (Thrown e)
      | _ \<Rightarrow> nonThrowException h e)"

section \<open>The pair-generating functor of the as-built Verlet lists\<close>

type_synonym vec3 = "real \<times> real \<times> real"

type_synonym double3 = "double \<times> double \<times> double"




text \<open>
  A particle as the functor sees it through a \<^verbatim>\<open>Particle &\<close>: the address of the object
  (the \<^verbatim>\<open>Particle *\<close> that keys the neighbour lists) and its position.
\<close>

record Particle =
  addr :: nat
  getR :: double3

text \<open>
  Modelled from the spec: \<^verbatim>\<open>VerletNeighborListAsBuild::addPair\<close> is only declared in the
  sources.  The neighbour list maps a particle pointer to the sequence of its partners, and
  adding the pair \<open>(first, second)\<close> appends \<open>second\<close> to the list of \<open>first\<close>.
\<close>

type_synonym NeighborList = "nat \<Rightarrow> nat list"

definition addPair :: "NeighborList \<Rightarrow> nat \<Rightarrow> nat \<Rightarrow> NeighborList" where
  "addPair list first second = list(first := list first @ [second])"

text \<open>
  The functor's SoA type: one column of particle pointers and three position columns.
  \<^verbatim>\<open>resizeArrays\<close> resizes every column, value-initialising new slots.
\<close>

record SoA =
  ptrArr :: "nat list"
  xArr :: "double list"
  yArr :: "double list"
  zArr :: "double list"

definition resize :: "nat \<Rightarrow> 'a \<Rightarrow> 'a list \<Rightarrow> 'a list" where
  "resize n d xs = take n xs @ replicate (n - length xs) d"

definition resizeArrays :: "nat \<Rightarrow> SoA \<Rightarrow> SoA" where
  "resizeArrays n soa =
     \<lparr> ptrArr = resize n 0 (ptrArr soa), xArr = resize n (Finite 0) (xArr soa),
       yArr = resize n (Finite 0) (yArr soa), zArr = resize n (Finite 0) (zArr soa) \<rparr>"

definition getNumParticles :: "SoA \<Rightarrow> nat" where
  "getNumParticles soa = length (ptrArr soa)"






text \<open>
  \<^verbatim>\<open>SoALoader\<close> signals a non-zero offset to the exception handler and, if the handler
  returns, goes on.  It returns the cell it was given together with the filled buffer.
\<close>

definition SoALoader ::
  "ExceptionHandler \<Rightarrow> (Particle, 'b) ParticleCell \<Rightarrow> SoA \<Rightarrow> nat
     \<Rightarrow> failure + ((Particle, 'b) ParticleCell \<times> SoA)" where
  "SoALoader h cell soa offset =
     (case (if offset \<noteq> 0 then exception h (AutoPasException ''offset must be 0, is: {}'' [ArgNat offset])
            else None) of
        Some e \<Rightarrow> Inl e
      | None \<Rightarrow>
          let soa1 = resizeArrays (numParticles cell) soa in
          if numParticles cell = 0 then Inr (cell, soa1)
          else Inr (cell,
            fold (\<lambda>i s.
                s\<lparr> ptrArr := (ptrArr s)[i := addr (particles cell ! i)],
                   xArr := (xArr s)[i := fst (getR (particles cell ! i))],
                   yArr := (yArr s)[i := fst (snd (getR (particles cell ! i)))],
                   zArr := (zArr s)[i := snd (snd (getR (particles cell ! i)))] \<rparr>)
              [0 ..< numParticles cell] soa1))"

definition SoAExtractor ::
  "(Particle, 'b) ParticleCell \<Rightarrow> SoA \<Rightarrow> nat \<Rightarrow> (Particle, 'b) ParticleCell \<times> SoA" where
  "SoAExtractor cell soa offset = (cell, soa)"

section \<open>Global values of \<^verbatim>\<open>LJFunctorAVX2\<close>\<close>

text \<open>
  Modelled from the spec: \<^verbatim>\<open>ArrayMath::add\<close> and \<^verbatim>\<open>ArrayMath::mulScalar\<close> are not among
  the sources; they are the element-wise sum and the scaling of a vector.
\<close>

definition add :: "vec3 \<Rightarrow> vec3 \<Rightarrow> vec3" where
  "add a b = (case a of (a0, a1, a2) \<Rightarrow> case b of (b0, b1, b2) \<Rightarrow> (a0 + b0, a1 + b1, a2 + b2))"

definition mulScalar :: "vec3 \<Rightarrow> real \<Rightarrow> vec3" where
  "mulScalar a s = (case a of (a0, a1, a2) \<Rightarrow> (a0 * s, a1 * s, a2 * s))"

record AoSThreadData =
  threadVirialSum :: vec3
  threadUpotSum :: real

definition setZero :: "AoSThreadData \<Rightarrow> AoSThreadData" where
  "setZero d = d\<lparr> threadVirialSum := (0, 0, 0), threadUpotSum := 0 \<rparr>"

text \<open>
  The part of the functor's state that the global values live in.  \<open>calculateGlobals\<close> is the
  template flag of the class; it never changes.
\<close>

record LJFunctorAVX2 =
  calculateGlobals :: bool
  upotSum :: real
  virialSum :: vec3
  aosThreadData :: "AoSThreadData list"
  postProcessed :: bool

definition resetGlobalValues :: "LJFunctorAVX2 \<Rightarrow> LJFunctorAVX2" where
  "resetGlobalValues f =
     f\<lparr> upotSum := 0, virialSum := (0, 0, 0), postProcessed := False,
        aosThreadData := map setZero (aosThreadData f) \<rparr>"

definition postProcessGlobalValues :: "bool \<Rightarrow> LJFunctorAVX2 \<Rightarrow> AutoPasException + LJFunctorAVX2" where
  "postProcessGlobalValues newton3 f =
     (if postProcessed f then
        Inl (AutoPasException
          ''Already postprocessed, please don't call postProcessGlobalValues(bool newton3) twice without calling resetGlobalValues().'' [])
      else
        let f1 = fold (\<lambda>i g.
                   g\<lparr> upotSum := upotSum g + threadUpotSum (aosThreadData g ! i),
                      virialSum := add (virialSum g) (threadVirialSum (aosThreadData g ! i)) \<rparr>)
                 [0 ..< length (aosThreadData f)] f;
            f2 = (if \<not> newton3 then
                    f1\<lparr> upotSum := upotSum f1 * 0.5, virialSum := mulScalar (virialSum f1) 0.5 \<rparr>
                  else f1);
            f3 = f2\<lparr> upotSum := upotSum f2 / 6 \<rparr>
        in Inr (f3\<lparr> postProcessed := True \<rparr>))"

definition getUpot :: "LJFunctorAVX2 \<Rightarrow> AutoPasException + real" where
  "getUpot f =
     (if \<not> calculateGlobals f then
        Inl (AutoPasException
          ''Trying to get upot even though calculateGlobals is false. If you want this functor to calculate global values, please specify calculateGlobals to be true.'' [])
      else if \<not> postProcessed f then
        Inl (AutoPasException ''Not yet postprocessed, please call postProcessGlobalValues first.'' [])
      else Inr (upotSum f))"

definition getVirial :: "LJFunctorAVX2 \<Rightarrow> AutoPasException + real" where
  "getVirial f =
     (if \<not> calculateGlobals f then
        Inl (AutoPasException
          ''Trying to get virial even though calculateGlobals is false. If you want this functor to calculate global values, please specify calculateGlobals to be true.'' [])
      else if \<not> postProcessed f then
        Inl (AutoPasException ''Not yet postprocessed, please call postProcessGlobalValues first.'' [])
      else Inr (case virialSum f of (v0, v1, v2) \<Rightarrow> v0 + v1 + v2))"

section \<open>Traversal options, applicability and the traversal selector\<close>

datatype DataLayoutOption = aos | soa | cuda

text \<open>
  The CUDA build: whether \<^verbatim>\<open>AUTOPAS_CUDA\<close> is defined, and the count that
  \<^verbatim>\<open>cudaGetDeviceCount\<close> reports.
\<close>

record CudaBuild =
  AUTOPAS_CUDA :: bool
  cudaGetDeviceCount :: int

definition C01TraversalVerlet_isApplicable :: "DataLayoutOption \<Rightarrow> bool \<Rightarrow> bool" where
  "C01TraversalVerlet_isApplicable DataLayout useNewton3 \<longleftrightarrow> (\<not> useNewton3) \<and> DataLayout = aos"

definition C04SoATraversal_isApplicable :: "DataLayoutOption \<Rightarrow> bool \<Rightarrow> bool" where
  "C04SoATraversal_isApplicable DataLayout useNewton3 \<longleftrightarrow> DataLayout = soa"

definition C18Traversal_isApplicable :: "CudaBuild \<Rightarrow> DataLayoutOption \<Rightarrow> bool \<Rightarrow> bool" where
  "C18Traversal_isApplicable build DataLayout useNewton3 =
     (let nDevices = (if AUTOPAS_CUDA build then cudaGetDeviceCount build else 0)
      in if DataLayout = cuda then nDevices > 0 else True)"

definition SlicedTraversalVerlet_isApplicable :: "DataLayoutOption \<Rightarrow> bool \<Rightarrow> bool" where
  "SlicedTraversalVerlet_isApplicable DataLayout useNewton3 \<longleftrightarrow> DataLayout = aos"

definition TraversalVerlet_isApplicable :: "DataLayoutOption \<Rightarrow> bool \<Rightarrow> bool" where
  "TraversalVerlet_isApplicable dataLayout useNewton3 \<longleftrightarrow> dataLayout = aos \<or> dataLayout = soa"

text \<open>
  Modelled from the spec: the enumeration \<^verbatim>\<open>TraversalOption\<close> is not among the sources.
  Its enumerators are the labels of the selector's \<^verbatim>\<open>switch\<close>; a value cast from an integer that
  names no enumerator, such as the test's \<^verbatim>\<open>TraversalOption(-1)\<close>, is \<open>invalidOption\<close>.
\<close>

datatype TraversalOption =
  directSumTraversal | c08 | sliced | c18 | c01 | c04SoA | c04 | c01CombinedSoA
  | slicedVerlet | c18Verlet | c01Verlet | c01Cuda | verletTraversal
  | verletClusters | verletClustersColoring | varVerletTraversalAsBuild
  | invalidOption int

record TraversalSelectorInfo =
  info_dims :: "nat \<times> nat \<times> nat"
  info_interactionLength :: double
  info_cellLength :: double3

text \<open>
  A traversal object: its class, the template arguments and the constructor arguments (the
  functor pointer is the same in every case and left out).  \<^verbatim>\<open>C01Traversal\<close> has a fifth
  template argument that selects the combined-SoA variant.
\<close>

datatype TraversalClass =
  DirectSumTraversal | C08Traversal | SlicedTraversal | C18Traversal | C01Traversal bool
  | C04SoATraversal | C04Traversal | SlicedTraversalVerlet | C18TraversalVerlet
  | C01TraversalVerlet | C01CudaTraversal | TraversalVerlet | VerletClustersTraversal
  | VerletClustersColoringTraversal | VarVerletTraversalAsBuild

datatype ConstructorArgs =
  FunctorOnly
  | DimsAndFunctor "nat \<times> nat \<times> nat"
  | DimsFunctorLengths "nat \<times> nat \<times> nat" double double3

record Traversal =
  traversalClass :: TraversalClass
  getDataLayout :: DataLayoutOption
  getUseNewton3 :: bool
  constructedWith :: ConstructorArgs

definition make_traversal ::
  "TraversalClass \<Rightarrow> DataLayoutOption \<Rightarrow> bool \<Rightarrow> ConstructorArgs \<Rightarrow> Traversal" where
  "make_traversal c l n a =
     \<lparr> traversalClass = c, getDataLayout = l, getUseNewton3 = n, constructedWith = a \<rparr>"

text \<open>
  \<^verbatim>\<open>getTraversalType\<close>.  The sources hold \<^verbatim>\<open>C18Traversal\<close>, \<^verbatim>\<open>C04SoATraversal\<close>,
  \<^verbatim>\<open>SlicedTraversalVerlet\<close>, \<^verbatim>\<open>C01TraversalVerlet\<close> and \<^verbatim>\<open>TraversalVerlet\<close>.
  Modelled from the spec: the other ten classes are not among the sources; each returns the
  option it is selected by, as \<^verbatim>\<open>testSelectAndGetCurrentTraversal\<close> expects of every option.
\<close>

fun getTraversalType_class :: "TraversalClass \<Rightarrow> TraversalOption" where
  "getTraversalType_class C18Traversal = c18"
| "getTraversalType_class C04SoATraversal = c04SoA"
| "getTraversalType_class SlicedTraversalVerlet = slicedVerlet"
| "getTraversalType_class C01TraversalVerlet = c01Verlet"
| "getTraversalType_class TraversalVerlet = verletTraversal"
| "getTraversalType_class DirectSumTraversal = directSumTraversal"
| "getTraversalType_class C08Traversal = c08"
| "getTraversalType_class SlicedTraversal = sliced"
| "getTraversalType_class (C01Traversal combineSoA) = (if combineSoA then c01CombinedSoA else c01)"
| "getTraversalType_class C04Traversal = c04"
| "getTraversalType_class C18TraversalVerlet = c18Verlet"
| "getTraversalType_class C01CudaTraversal = c01Cuda"
| "getTraversalType_class VerletClustersTraversal = verletClusters"
| "getTraversalType_class VerletClustersColoringTraversal = verletClustersColoring"
| "getTraversalType_class VarVerletTraversalAsBuild = varVerletTraversalAsBuild"

definition getTraversalType :: "Traversal \<Rightarrow> TraversalOption" where
  "getTraversalType t = getTraversalType_class (traversalClass t)"

text \<open>
  \<^verbatim>\<open>TraversalSelector::generateTraversal\<close>, the overload with the layout and the Newton3 flag
  as template arguments.  The result is the \<^verbatim>\<open>unique_ptr\<close>: \<open>None\<close> is the null pointer that
  is returned when the exception handler returns.  \<^verbatim>\<open>StringUtils::to_string\<close> is not among
  the sources and is a parameter.
\<close>

definition generateTraversal ::
  "ExceptionHandler \<Rightarrow> (TraversalOption \<Rightarrow> string) \<Rightarrow> DataLayoutOption \<Rightarrow> bool
     \<Rightarrow> TraversalOption \<Rightarrow> TraversalSelectorInfo \<Rightarrow> failure + Traversal option" where
  "generateTraversal h to_string dataLayout useNewton3 traversalType info =
     (let lengths = DimsFunctorLengths (info_dims info) (info_interactionLength info) (info_cellLength info);
          new = (\<lambda>c a. Inr (Some (make_traversal c dataLayout useNewton3 a)))
      in case traversalType of
        directSumTraversal \<Rightarrow> new DirectSumTraversal FunctorOnly
      | c08 \<Rightarrow> new C08Traversal lengths
      | sliced \<Rightarrow> new SlicedTraversal lengths
      | c18 \<Rightarrow> new C18Traversal lengths
      | c01 \<Rightarrow> new (C01Traversal False) lengths
      | c04SoA \<Rightarrow> new C04SoATraversal lengths
      | c04 \<Rightarrow> new C04Traversal lengths
      | c01CombinedSoA \<Rightarrow> new (C01Traversal True) lengths
      | slicedVerlet \<Rightarrow> new SlicedTraversalVerlet (DimsAndFunctor (info_dims info))
      | c18Verlet \<Rightarrow> new C18TraversalVerlet (DimsAndFunctor (info_dims info))
      | c01Verlet \<Rightarrow> new C01TraversalVerlet (DimsAndFunctor (info_dims info))
      | c01Cuda \<Rightarrow> new C01CudaTraversal (DimsAndFunctor (info_dims info))
      | verletTraversal \<Rightarrow> new TraversalVerlet FunctorOnly
      | verletClusters \<Rightarrow> new VerletClustersTraversal FunctorOnly
      | verletClustersColoring \<Rightarrow> new VerletClustersColoringTraversal FunctorOnly
      | varVerletTraversalAsBuild \<Rightarrow> new VarVerletTraversalAsBuild FunctorOnly
      | invalidOption v \<Rightarrow>
          (case exception h (AutoPasException ''Traversal type {} is not a known type!''
                               [ArgString (to_string traversalType)]) of
             Some e \<Rightarrow> Inl e
           | None \<Rightarrow> Inr None))"
section \<open>The offset schedules of the linked-cells base steps\<close>



subsection \<open>\<^verbatim>\<open>C08CellHandler\<close>\<close>









subsection \<open>\<^verbatim>\<open>C18Traversal\<close>\<close>

text \<open>
  \<^verbatim>\<open>C18Traversal::computeOffsets\<close> fills a two-dimensional array of offset lists, one list
  for each special case of the base cell's position in x and y.  The array starts out with
  empty lists.  The loop variables are signed; the gap \<^verbatim>\<open>std::max(0l, std::abs(x) - 1l)\<close> is
  computed in \<^verbatim>\<open>long\<close> and converted to \<^verbatim>\<open>double\<close> for the product with the cell length.
\<close>

definition c18_push ::
  "(int \<times> 'r) list list list \<Rightarrow> nat \<Rightarrow> nat \<Rightarrow> int \<times> 'r \<Rightarrow> (int \<times> 'r) list list list" where
  "c18_push cellOffsets yIndex xIndex entry =
     cellOffsets[yIndex := (cellOffsets ! yIndex)[xIndex := cellOffsets ! yIndex ! xIndex @ [entry]]]"






section \<open>\<^verbatim>\<open>VerletLists\<close>: the SoA list and the validity check\<close>

text \<open>
  The part of the container's state that the two operations use.  \<^verbatim>\<open>_aosNeighborLists\<close> is
  an \<^verbatim>\<open>unordered_map\<close> from particle pointers to partner vectors: its entries are kept in the
  order in which the map iterates over them.  \<^verbatim>\<open>_aos2soaMap\<close> maps particle pointers to rows,
  \<^verbatim>\<open>_soaNeighborLists\<close> holds one row-index list per row.  \<^verbatim>\<open>_neighborListIsValid\<close> is a
  member of the base class.
\<close>

record VerletLists =
  aosNeighborLists :: "(nat \<times> nat list) list"
  aos2soaMap :: "nat \<rightharpoonup> nat"
  soaNeighborLists :: "nat list list"
  soaListIsValid :: bool
  neighborListIsValid :: bool

text \<open>
  What can go wrong in \<^verbatim>\<open>generateSoAListFromAoSVerletLists\<close>: \<^verbatim>\<open>unordered_map::at\<close> throws
  \<^verbatim>\<open>std::out_of_range\<close> for a missing key, and indexing a vector beyond its size is undefined.
\<close>

datatype ListFailure = std_out_of_range | IndexBeyondSize

text \<open>The inner loop: entry \<open>j\<close> of the row becomes the row index of the \<open>j\<close>-th partner.\<close>

fun rewriteNeighbors :: "nat list \<Rightarrow> nat \<Rightarrow> (nat \<rightharpoonup> nat) \<Rightarrow> nat list \<Rightarrow> ListFailure + nat list" where
  "rewriteNeighbors [] j m row = Inr row"
| "rewriteNeighbors (neighbor # rest) j m row =
     (case m neighbor of
        None \<Rightarrow> Inl std_out_of_range
      | Some r \<Rightarrow>
          if j < length row then rewriteNeighbors rest (j + 1) m (row[j := r])
          else Inl IndexBeyondSize)"

text \<open>
  The loop over the AoS lists.  \<^verbatim>\<open>_aos2soaMap[aosList.first]\<close> is \<^verbatim>\<open>operator[]\<close>, which inserts
  row 0 for a key it does not find.
\<close>

fun rewriteLists ::
  "(nat \<times> nat list) list \<Rightarrow> (nat \<rightharpoonup> nat) \<Rightarrow> nat list list
     \<Rightarrow> ListFailure + ((nat \<rightharpoonup> nat) \<times> nat list list)" where
  "rewriteLists [] m soaLists = Inr (m, soaLists)"
| "rewriteLists (aosList # rest) m soaLists =
     (let i_id = (case m (fst aosList) of Some r \<Rightarrow> r | None \<Rightarrow> 0);
          m1 = (case m (fst aosList) of Some r \<Rightarrow> m | None \<Rightarrow> m(fst aosList \<mapsto> 0))
      in if i_id < length soaLists then
           (case rewriteNeighbors (snd aosList) 0 m1
                   (resize (length (snd aosList)) 0 (soaLists ! i_id)) of
              Inl e \<Rightarrow> Inl e
            | Inr row \<Rightarrow> rewriteLists rest m1 (soaLists[i_id := row]))
         else Inl IndexBeyondSize)"

text \<open>
  \<^verbatim>\<open>generateSoAListFromAoSVerletLists\<close>.  \<open>container\<close> is the sequence of particle pointers
  that iterating the container from \<^verbatim>\<open>begin()\<close> yields.  The debug log of the average list
  size is left out.
\<close>

definition generateSoAListFromAoSVerletLists ::
  "nat list \<Rightarrow> VerletLists \<Rightarrow> ListFailure + VerletLists" where
  "generateSoAListFromAoSVerletLists container v =
     (let lists1 = resize (length (aosNeighborLists v)) [] (soaNeighborLists v);
          rows1 = fold (\<lambda>i m. m(container ! i \<mapsto> i)) [0 ..< length container] Map.empty
      in case rewriteLists (aosNeighborLists v) rows1 lists1 of
           Inl e \<Rightarrow> Inl e
         | Inr (rows2, lists2) \<Rightarrow>
             Inr (v\<lparr> aos2soaMap := rows2, soaNeighborLists := lists2, soaListIsValid := True \<rparr>))"




text \<open>
  \<^verbatim>\<open>checkNeighborListsAreValid\<close>.  \<^verbatim>\<open>isContainerUpdateNeeded\<close> belongs to the base class and
  is not among the sources: its answer is an argument.  \<^verbatim>\<open>VerletListValidityCheckerFunctor\<close>,
  \<^verbatim>\<open>C08Traversal\<close> and \<^verbatim>\<open>LinkedCells::iteratePairwise\<close> are not among the sources either:
  what \<^verbatim>\<open>neighborlistsAreValid()\<close> answers after the traversal has driven the functor that
  was constructed from the AoS lists and the cutoff is an argument, too.  The parameter
  \<open>useNewton3\<close> of the source is not used by it.
\<close>

definition checkNeighborListsAreValid ::
  "bool \<Rightarrow> ((nat \<times> nat list) list \<Rightarrow> double \<Rightarrow> bool) \<Rightarrow> double \<Rightarrow> VerletLists \<Rightarrow> bool \<Rightarrow> bool" where
  "checkNeighborListsAreValid isContainerUpdateNeeded validityTraversal cutoff v useNewton3 =
     (if \<not> neighborListIsValid v then False
      else if isContainerUpdateNeeded then False
      else validityTraversal (aosNeighborLists v) cutoff)"

section \<open>Notions used to state the properties\<close>




text \<open>The effect of a sequence of \<^verbatim>\<open>addPair\<close> calls on a neighbour list.\<close>

definition addPairs :: "(nat \<times> nat) list \<Rightarrow> NeighborList \<Rightarrow> NeighborList" where
  "addPairs ps list = fold (\<lambda>p l. addPair l (fst p) (snd p)) ps list"

text \<open>The buffer contents that \<^verbatim>\<open>SoALoader\<close> produces for a sequence of particles.\<close>

definition loadedSoA :: "Particle list \<Rightarrow> SoA" where
  "loadedSoA ps =
     \<lparr> ptrArr = map addr ps,
       xArr = map (\<lambda>p. fst (getR p)) ps,
       yArr = map (\<lambda>p. fst (snd (getR p))) ps,
       zArr = map (\<lambda>p. snd (snd (getR p))) ps \<rparr>"







text \<open>The effect of a sequence of pushes on the offset array of the C18 traversal.\<close>

definition c18_pushAll ::
  "(nat \<times> nat \<times> int \<times> 'r) list \<Rightarrow> (int \<times> 'r) list list list \<Rightarrow> (int \<times> 'r) list list list" where
  "c18_pushAll events cellOffsets =
     fold (\<lambda>ev cs. c18_push cs (fst ev) (fst (snd ev)) (snd (snd ev))) events cellOffsets"

section \<open>Shared facts\<close>

lemma exception_throws: "behavior h = throwException \<Longrightarrow> exception h e = Some (Thrown e)"
  by (simp add: exception_def)

lemma exception_by_behavior:
  "exception h e =
     (case behavior h of
        throwException \<Rightarrow> Some (Thrown e)
      | printAbort \<Rightarrow> Some Aborted
      | ignore \<Rightarrow> None
      | printCustomAbortFunction \<Rightarrow> customAbortFunction h)"
  by (cases "behavior h") (simp_all add: exception_def nonThrowException_def)

lemma bitlength_numeral [simp]:
  "bitlength 0 = 0"
  "bitlength (Suc 0) = Suc 0"
  "bitlength (numeral Num.One) = 1"
  "bitlength (numeral (Num.Bit0 k)) = Suc (bitlength (numeral k))"
  "bitlength (numeral (Num.Bit1 k)) = Suc (bitlength (numeral k))"
proof -
  show "bitlength 0 = 0" by (simp add: bitlength.simps)
  show s: "bitlength (Suc 0) = Suc 0" by (subst bitlength.simps) (simp add: bitlength.simps[of 0])
  show "bitlength (numeral Num.One) = 1" using s by simp
  have "numeral (Num.Bit0 k) div (2::nat) = numeral k" by simp
  then show "bitlength (numeral (Num.Bit0 k)) = Suc (bitlength (numeral k))"
    by (subst bitlength.simps) simp
  have "numeral (Num.Bit1 k) div (2::nat) = numeral k" by simp
  then show "bitlength (numeral (Num.Bit1 k)) = Suc (bitlength (numeral k))"
    by (subst bitlength.simps) simp
qed



section \<open>The cell functor without Newton3 in AoS layout\<close>

lemma fold_snoc_map: "fold (\<lambda>x s. s @ [g x]) xs s = s @ map g xs"
  by (induction xs arbitrary: s) auto

lemma fold_append_concat:
  "(\<And>x s. h x s = s @ k x) \<Longrightarrow> fold h xs s = s @ concat (map k xs)"
  by (induction xs arbitrary: s) auto

lemma trace_NoN3:
  "processCellAoSNoN3 MFunctor cell s =
     s @ concat (map (\<lambda>outer. map (\<lambda>inner. AoSCall (particles cell ! outer) (particles cell ! inner) False)
                       ([0 ..< outer] @ [Suc outer ..< numParticles cell]))
                 [0 ..< numParticles cell])"
  unfolding processCellAoSNoN3_def
  by (rule fold_append_concat) (simp add: Let_def MFunctor_def fold_snoc_map)

lemma trace_pair_NoN3:
  "processCellPairAoSNoN3 MFunctor cell1 cell2 s =
     s @ concat (map (\<lambda>outer. concat (map (\<lambda>inner. 
            [AoSCall (particles cell1 ! outer) (particles cell2 ! inner) False,
             AoSCall (particles cell2 ! inner) (particles cell1 ! outer) False])
                       [0 ..< numParticles cell2]))
                 [0 ..< numParticles cell1])"
  unfolding processCellPairAoSNoN3_def
  apply (rule fold_append_concat)
  apply (simp add: Let_def)
  apply (rule fold_append_concat)
  apply (simp add: MFunctor_def)
  done

lemma sum_list_cong_set:
  "(\<And>x. x \<in> set xs \<Longrightarrow> f x = g x) \<Longrightarrow> sum_list (map f xs) = sum_list (map g xs)"
  by (induction xs) auto

lemma sum_list_upt_delta:
  "(\<Sum>x\<leftarrow>[a..<b]. if x = i then (c::nat) else 0) = (if a \<le> i \<and> i < b then c else 0)"
  by (induction b) auto

lemma count_list_nested:
  "count_list (concat (map (\<lambda>a. concat (map (k a) (ys a))) xs)) c =
     (\<Sum>a\<leftarrow>xs. \<Sum>b\<leftarrow>ys a. count_list (k a b) c)"
  by (simp add: count_list_concat comp_def)

lemma count_intra:
  assumes d: "distinct ps" and i: "i < length ps" and j: "j < length ps"
  shows "count_list (concat (map (\<lambda>outer. map (\<lambda>inner. AoSCall (ps ! outer) (ps ! inner) b)
                       ([0 ..< outer] @ [Suc outer ..< length ps])) [0 ..< length ps]))
           (AoSCall (ps ! i) (ps ! j) b) = (if i = j then 0 else 1)"
proof -
  let ?n = "length ps"
  have inner: "count_list (map (\<lambda>inner. AoSCall (ps ! outer) (ps ! inner) b) [lo ..< hi])
                 (AoSCall (ps ! i) (ps ! j) b) = (if outer = i \<and> lo \<le> j \<and> j < hi then 1 else 0)"
    if "outer < ?n" "hi \<le> ?n" for outer lo hi
    using that d i j by (induction hi) (auto simp: nth_eq_iff_index_eq)
  have "count_list (concat (map (\<lambda>outer. map (\<lambda>inner. AoSCall (ps ! outer) (ps ! inner) b)
                       ([0 ..< outer] @ [Suc outer ..< ?n])) [0 ..< ?n])) (AoSCall (ps ! i) (ps ! j) b)
      = (\<Sum>outer\<leftarrow>[0..<?n]. if outer = i then (if i = j then 0 else 1) else 0)"
    unfolding count_list_concat map_map comp_def
    apply (rule sum_list_cong_set)
    using j by (auto simp: inner)
  also have "\<dots> = (if i = j then 0 else 1)"
    using i by (simp add: sum_list_upt_delta)
  finally show ?thesis .
qed

lemma length_intra:
  "length (concat (map (\<lambda>outer. map (g outer) ([0 ..< outer] @ [Suc outer ..< n])) [0 ..< n]))
     = n * (n - 1)"
proof -
  have "length (concat (map (\<lambda>outer. map (g outer) ([0 ..< outer] @ [Suc outer ..< n])) [0 ..< n]))
      = (\<Sum>outer\<leftarrow>[0..<n]. n - 1)"
    unfolding length_concat map_map comp_def
    by (rule sum_list_cong_set) auto
  then show ?thesis by (simp add: sum_list_triv)
qed


lemma count_pair:
  assumes d1: "distinct ps1" and d2: "distinct ps2" and dj: "set ps1 \<inter> set ps2 = {}"
    and i: "i < length ps1" and j: "j < length ps2"
  shows "count_list (concat (map (\<lambda>outer. concat (map (\<lambda>inner.
            [AoSCall (ps1 ! outer) (ps2 ! inner) b, AoSCall (ps2 ! inner) (ps1 ! outer) b])
              [0 ..< length ps2])) [0 ..< length ps1])) (AoSCall (ps1 ! i) (ps2 ! j) b) = 1"
    and "count_list (concat (map (\<lambda>outer. concat (map (\<lambda>inner.
            [AoSCall (ps1 ! outer) (ps2 ! inner) b, AoSCall (ps2 ! inner) (ps1 ! outer) b])
              [0 ..< length ps2])) [0 ..< length ps1])) (AoSCall (ps2 ! j) (ps1 ! i) b) = 1"
proof -
  have ne: "ps1 ! a \<noteq> ps2 ! c" if "a < length ps1" "c < length ps2" for a c
    using that dj by (metis disjoint_iff nth_mem)
  have one: "count_list [AoSCall (ps1 ! a) (ps2 ! c) b, AoSCall (ps2 ! c) (ps1 ! a) b]
               (AoSCall (ps1 ! i) (ps2 ! j) b) = (if a = i then (if c = j then 1 else 0) else 0)"
    and two: "count_list [AoSCall (ps1 ! a) (ps2 ! c) b, AoSCall (ps2 ! c) (ps1 ! a) b]
               (AoSCall (ps2 ! j) (ps1 ! i) b) = (if a = i then (if c = j then 1 else 0) else 0)"
    if "a < length ps1" "c < length ps2" for a c
    using that d1 d2 i j ne ne[symmetric] by (auto simp: nth_eq_iff_index_eq)
  have s: "(\<Sum>a\<leftarrow>[0..<length ps1]. \<Sum>c\<leftarrow>[0..<length ps2].
              if a = i then (if c = j then 1 else 0) else (0::nat)) = 1"
  proof -
    have "(\<Sum>a\<leftarrow>[0..<length ps1]. \<Sum>c\<leftarrow>[0..<length ps2].
              if a = i then (if c = j then 1 else 0) else (0::nat))
        = (\<Sum>a\<leftarrow>[0..<length ps1]. if a = i then 1 else 0)"
      by (rule sum_list_cong_set) (use j in \<open>simp add: sum_list_upt_delta\<close>)
    then show ?thesis using i by (simp add: sum_list_upt_delta)
  qed
  show "count_list (concat (map (\<lambda>outer. concat (map (\<lambda>inner.
            [AoSCall (ps1 ! outer) (ps2 ! inner) b, AoSCall (ps2 ! inner) (ps1 ! outer) b])
              [0 ..< length ps2])) [0 ..< length ps1])) (AoSCall (ps1 ! i) (ps2 ! j) b) = 1"
    unfolding count_list_nested
    apply (subst s[symmetric])
    apply (rule sum_list_cong_set, rule sum_list_cong_set)
    by (rule one) simp_all
  show "count_list (concat (map (\<lambda>outer. concat (map (\<lambda>inner.
            [AoSCall (ps1 ! outer) (ps2 ! inner) b, AoSCall (ps2 ! inner) (ps1 ! outer) b])
              [0 ..< length ps2])) [0 ..< length ps1])) (AoSCall (ps2 ! j) (ps1 ! i) b) = 1"
    unfolding count_list_nested
    apply (subst s[symmetric])
    apply (rule sum_list_cong_set, rule sum_list_cong_set)
    by (rule two) simp_all
qed

lemma length_pair:
  "length (concat (map (\<lambda>outer. concat (map (\<lambda>inner. [g outer inner, h outer inner]) [0 ..< m]))
      [0 ..< n])) = 2 * n * m"
  by (simp add: length_concat comp_def sum_list_triv)

lemma processCell_NoN3_trace:
  "processCell False False MFunctor cell [] =
     concat (map (\<lambda>outer. map (\<lambda>inner. AoSCall (particles cell ! outer) (particles cell ! inner) False)
                       ([0 ..< outer] @ [Suc outer ..< length (particles cell)]))
                 [0 ..< length (particles cell)])"
  by (simp only: processCell_def if_False trace_NoN3 append_Nil numParticles_def)

lemma processCellPair_NoN3_trace:
  "processCellPair False False MFunctor cell1 cell2 [] =
     concat (map (\<lambda>outer. concat (map (\<lambda>inner.
            [AoSCall (particles cell1 ! outer) (particles cell2 ! inner) False,
             AoSCall (particles cell2 ! inner) (particles cell1 ! outer) False])
                       [0 ..< length (particles cell2)]))
                 [0 ..< length (particles cell1)])"
  by (simp only: processCellPair_def if_False trace_pair_NoN3 append_Nil numParticles_def)

text \<open>
  Claim C2.  Driven with the recording functor in AoS layout without Newton3,
  \<^verbatim>\<open>processCell\<close> calls \<^verbatim>\<open>AoSFunctor(p_i, p_j, false)\<close> exactly once for every ordered pair
  of different positions of the cell and never for a particle with itself, and
  \<^verbatim>\<open>processCellPair\<close> calls \<^verbatim>\<open>AoSFunctor(p_i, p_j, false)\<close> and
  \<^verbatim>\<open>AoSFunctor(p_j, p_i, false)\<close> exactly once for every \<open>p_i\<close> of the first and \<open>p_j\<close> of the
  second cell.  The totals \<open>n (n - 1)\<close> and \<open>2 n\<^sub>1 n\<^sub>2\<close> show that nothing else is called, so
  every unordered pair is visited twice, once in each ordering.
\<close>

theorem cellFunctor_AoS_NoN3:
  fixes cell cell1 cell2 :: "('p, 'soa) ParticleCell"
  assumes "distinct (particles cell)"
    and "distinct (particles cell1)" and "distinct (particles cell2)"
    and "set (particles cell1) \<inter> set (particles cell2) = {}"
  shows "(\<forall>i < numParticles cell. \<forall>j < numParticles cell.
            count_list (processCell False False MFunctor cell [])
                       (AoSCall (particles cell ! i) (particles cell ! j) False)
              = (if i = j then 0 else 1))
       \<and> length (processCell False False MFunctor cell [])
            = numParticles cell * (numParticles cell - 1)
       \<and> (\<forall>i < numParticles cell1. \<forall>j < numParticles cell2.
            count_list (processCellPair False False MFunctor cell1 cell2 [])
                       (AoSCall (particles cell1 ! i) (particles cell2 ! j) False) = 1
          \<and> count_list (processCellPair False False MFunctor cell1 cell2 [])
                       (AoSCall (particles cell2 ! j) (particles cell1 ! i) False) = 1)
       \<and> length (processCellPair False False MFunctor cell1 cell2 [])
            = 2 * numParticles cell1 * numParticles cell2"
proof (intro conjI allI impI)
  fix i j assume "i < numParticles cell" "j < numParticles cell"
  then show "count_list (processCell False False MFunctor cell [])
                       (AoSCall (particles cell ! i) (particles cell ! j) False)
              = (if i = j then 0 else 1)"
    unfolding processCell_NoN3_trace numParticles_def
    by (rule count_intra[OF assms(1)])
next
  show "length (processCell False False MFunctor cell [])
            = numParticles cell * (numParticles cell - 1)"
    unfolding processCell_NoN3_trace numParticles_def by (rule length_intra)
next
  fix i j assume ij: "i < numParticles cell1" "j < numParticles cell2"
  show "count_list (processCellPair False False MFunctor cell1 cell2 [])
                       (AoSCall (particles cell1 ! i) (particles cell2 ! j) False) = 1"
    unfolding processCellPair_NoN3_trace
    by (rule count_pair(1)[OF assms(2-4) ij[unfolded numParticles_def]])
  show "count_list (processCellPair False False MFunctor cell1 cell2 [])
                       (AoSCall (particles cell2 ! j) (particles cell1 ! i) False) = 1"
    unfolding processCellPair_NoN3_trace
    by (rule count_pair(2)[OF assms(2-4) ij[unfolded numParticles_def]])
next
  show "length (processCellPair False False MFunctor cell1 cell2 [])
            = 2 * numParticles cell1 * numParticles cell2"
    unfolding processCellPair_NoN3_trace numParticles_def by (rule length_pair)
qed

theorem cellFunctor_AoS_NoN3_witness:
  "count_list (processCell False False MFunctor
        \<lparr>particles = [10::nat, 20, 30], particleSoABuffer = ()\<rparr> []) (AoSCall 30 10 False) = 1
   \<and> count_list (processCell False False MFunctor
        \<lparr>particles = [10::nat, 20, 30], particleSoABuffer = ()\<rparr> []) (AoSCall 20 20 False) = 0
   \<and> count_list (processCellPair False False MFunctor
        \<lparr>particles = [10::nat, 20], particleSoABuffer = ()\<rparr>
        \<lparr>particles = [30], particleSoABuffer = ()\<rparr> []) (AoSCall 30 20 False) = 1"
proof -
  let ?c = "\<lparr>particles = [10::nat, 20, 30], particleSoABuffer = ()\<rparr>"
  let ?c1 = "\<lparr>particles = [10::nat, 20], particleSoABuffer = ()\<rparr>"
  let ?c2 = "\<lparr>particles = [30::nat], particleSoABuffer = ()\<rparr>"
  have h: "distinct (particles ?c)" "distinct (particles ?c1)" "distinct (particles ?c2)"
    "set (particles ?c1) \<inter> set (particles ?c2) = {}"
    by simp_all
  note t = cellFunctor_AoS_NoN3[OF h]
  have n: "(2::nat) < numParticles ?c" "(0::nat) < numParticles ?c" "(1::nat) < numParticles ?c"
    "(1::nat) < numParticles ?c1" "(0::nat) < numParticles ?c2"
    by (simp_all add: numParticles_def)
  have a: "count_list (processCell False False MFunctor ?c [])
             (AoSCall (particles ?c ! 2) (particles ?c ! 0) False) = (if (2::nat) = 0 then 0 else 1)"
    using t n(1,2) by blast
  have b: "count_list (processCell False False MFunctor ?c [])
             (AoSCall (particles ?c ! 1) (particles ?c ! 1) False) = (if (1::nat) = 1 then 0 else 1)"
    using t n(3) by blast
  have c: "count_list (processCellPair False False MFunctor ?c1 ?c2 [])
             (AoSCall (particles ?c2 ! 0) (particles ?c1 ! 1) False) = 1"
    using t n(4,5) by blast
  from a b c show ?thesis by simp
qed


section \<open>Post-processing order of the global values\<close>

lemma accumulate_thread_data_keeps_flags:
  "calculateGlobals (fold (\<lambda>i g.
       g\<lparr> upotSum := upotSum g + threadUpotSum (aosThreadData g ! i),
          virialSum := add (virialSum g) (threadVirialSum (aosThreadData g ! i)) \<rparr>) is f)
     = calculateGlobals f"
  by (induction "is" arbitrary: f) simp_all

lemma postProcessGlobalValues_cases:
  "postProcessed f \<Longrightarrow> isl (postProcessGlobalValues newton3 f)"
  "\<not> postProcessed f \<Longrightarrow>
     \<exists>f'. postProcessGlobalValues newton3 f = Inr f' \<and> postProcessed f'
          \<and> calculateGlobals f' = calculateGlobals f"
  by (simp_all add: postProcessGlobalValues_def Let_def accumulate_thread_data_keeps_flags)

lemma postProcessGlobalValues_succeeds:
  "\<not> postProcessed f \<Longrightarrow> \<not> isl (postProcessGlobalValues newton3 f)"
  by (simp add: postProcessGlobalValues_def Let_def)

lemma resetGlobalValues_flags:
  "\<not> postProcessed (resetGlobalValues f)"
  "calculateGlobals (resetGlobalValues f) = calculateGlobals f"
  by (simp_all add: resetGlobalValues_def)

text \<open>
  Claim C9.  \<^verbatim>\<open>postProcessGlobalValues\<close> throws an \<^verbatim>\<open>AutoPasException\<close> when the functor is
  already post-processed; otherwise it succeeds and leaves the functor post-processed, so
  that a second call throws unless \<^verbatim>\<open>resetGlobalValues\<close> comes in between.  \<^verbatim>\<open>getUpot\<close> and
  \<^verbatim>\<open>getVirial\<close> throw exactly when \<^verbatim>\<open>calculateGlobals\<close> is false or the functor is not yet
  post-processed.
\<close>

theorem LJFunctorAVX2_postProcessing_order:
  "(postProcessed f \<longrightarrow> isl (postProcessGlobalValues newton3 f))
   \<and> (\<not> postProcessed f \<longrightarrow>
        (\<exists>f'. postProcessGlobalValues newton3 f = Inr f' \<and> postProcessed f'
              \<and> calculateGlobals f' = calculateGlobals f
              \<and> isl (postProcessGlobalValues newton3' f')
              \<and> \<not> isl (postProcessGlobalValues newton3' (resetGlobalValues f'))))
   \<and> (isl (getUpot f) \<longleftrightarrow> \<not> calculateGlobals f \<or> \<not> postProcessed f)
   \<and> (isl (getVirial f) \<longleftrightarrow> \<not> calculateGlobals f \<or> \<not> postProcessed f)"
proof (intro conjI impI)
  assume "postProcessed f"
  then show "isl (postProcessGlobalValues newton3 f)" by (rule postProcessGlobalValues_cases(1))
next
  assume "\<not> postProcessed f"
  from postProcessGlobalValues_cases(2)[OF this, of newton3]
  obtain f' where f': "postProcessGlobalValues newton3 f = Inr f'" "postProcessed f'"
    "calculateGlobals f' = calculateGlobals f" by blast
  have a: "isl (postProcessGlobalValues newton3' f')"
    using f'(2) by (rule postProcessGlobalValues_cases(1))
  have b: "\<not> isl (postProcessGlobalValues newton3' (resetGlobalValues f'))"
    by (rule postProcessGlobalValues_succeeds[OF resetGlobalValues_flags(1)])
  from f' a b show "\<exists>f'. postProcessGlobalValues newton3 f = Inr f' \<and> postProcessed f'
              \<and> calculateGlobals f' = calculateGlobals f
              \<and> isl (postProcessGlobalValues newton3' f')
              \<and> \<not> isl (postProcessGlobalValues newton3' (resetGlobalValues f'))"
    by blast
next
  show "isl (getUpot f) \<longleftrightarrow> \<not> calculateGlobals f \<or> \<not> postProcessed f"
    by (simp add: getUpot_def)
next
  show "isl (getVirial f) \<longleftrightarrow> \<not> calculateGlobals f \<or> \<not> postProcessed f"
    by (simp add: getVirial_def)
qed

theorem LJFunctorAVX2_postProcessing_order_witness:
  "\<exists>f'. postProcessGlobalValues False
          \<lparr> calculateGlobals = True, upotSum = 0, virialSum = (0, 0, 0),
            aosThreadData = [\<lparr> threadVirialSum = (1, 2, 3), threadUpotSum = 12 \<rparr>],
            postProcessed = False \<rparr> = Inr f'
        \<and> postProcessed f' \<and> isl (postProcessGlobalValues True f')
        \<and> \<not> isl (getUpot f')"
proof -
  let ?f = "\<lparr> calculateGlobals = True, upotSum = 0, virialSum = (0, 0, 0),
            aosThreadData = [\<lparr> threadVirialSum = (1, 2, 3), threadUpotSum = 12 \<rparr>],
            postProcessed = False \<rparr>"
  have np: "\<not> postProcessed ?f" by simp
  note t = LJFunctorAVX2_postProcessing_order[of ?f False True]
  from t[THEN conjunct2, THEN conjunct1, rule_format, OF np]
  obtain f' where f': "postProcessGlobalValues False ?f = Inr f'" "postProcessed f'"
      "calculateGlobals f' = calculateGlobals ?f" "isl (postProcessGlobalValues True f')"
    by (elim exE conjE)
  note u = LJFunctorAVX2_postProcessing_order[of f' False True]
  have "isl (getUpot f') \<longleftrightarrow> \<not> calculateGlobals f' \<or> \<not> postProcessed f'"
    by (rule u[THEN conjunct2, THEN conjunct2, THEN conjunct1])
  with f'(2,3) have g: "\<not> isl (getUpot f')" by simp
  show ?thesis
    by (rule exI[of _ f']) (simp only: f' g simp_thms)
qed


section \<open>Applicability of traversals\<close>

text \<open>
  Claim C8.  \<^verbatim>\<open>C01TraversalVerlet\<close> is applicable only without Newton3,
  \<^verbatim>\<open>C04SoATraversal\<close> is applicable exactly in the SoA layout, and a traversal instantiated
  with the cuda layout is applicable only when the build has CUDA and reports a device:
  \<^verbatim>\<open>C18Traversal\<close> asks for the device count, the other traversals of the sources are never
  applicable in the cuda layout.
\<close>

theorem applicability_composition:
  "(C01TraversalVerlet_isApplicable layout n3 \<longrightarrow> \<not> n3)
   \<and> (C04SoATraversal_isApplicable layout n3 \<longleftrightarrow> layout = soa)
   \<and> (C18Traversal_isApplicable build cuda n3 \<longrightarrow> AUTOPAS_CUDA build \<and> 0 < cudaGetDeviceCount build)
   \<and> \<not> C01TraversalVerlet_isApplicable cuda n3
   \<and> \<not> C04SoATraversal_isApplicable cuda n3
   \<and> \<not> SlicedTraversalVerlet_isApplicable cuda n3
   \<and> \<not> TraversalVerlet_isApplicable cuda n3"
  by (simp add: C01TraversalVerlet_isApplicable_def C04SoATraversal_isApplicable_def
      C18Traversal_isApplicable_def SlicedTraversalVerlet_isApplicable_def
      TraversalVerlet_isApplicable_def Let_def)

theorem applicability_composition_witness:
  "C01TraversalVerlet_isApplicable aos False
   \<and> C04SoATraversal_isApplicable soa False
   \<and> C18Traversal_isApplicable \<lparr> AUTOPAS_CUDA = True, cudaGetDeviceCount = 2 \<rparr> cuda False
   \<and> AUTOPAS_CUDA \<lparr> AUTOPAS_CUDA = True, cudaGetDeviceCount = 2 \<rparr>
   \<and> 0 < cudaGetDeviceCount \<lparr> AUTOPAS_CUDA = True, cudaGetDeviceCount = 2 \<rparr>
   \<and> \<not> TraversalVerlet_isApplicable cuda False"
proof -
  let ?b = "\<lparr> AUTOPAS_CUDA = True, cudaGetDeviceCount = 2 \<rparr>"
  note t = applicability_composition[of aos False ?b]
  note u = applicability_composition[of soa False ?b]
  have a: "C01TraversalVerlet_isApplicable aos False"
    by (simp add: C01TraversalVerlet_isApplicable_def)
  have b: "C18Traversal_isApplicable ?b cuda False"
    by (simp add: C18Traversal_isApplicable_def)
  have c: "C04SoATraversal_isApplicable soa False"
    using u[THEN conjunct2, THEN conjunct1] by simp
  have d: "AUTOPAS_CUDA ?b \<and> 0 < cudaGetDeviceCount ?b"
    by (rule t[THEN conjunct2, THEN conjunct2, THEN conjunct1, rule_format, OF b])
  have e: "\<not> TraversalVerlet_isApplicable cuda False"
    by (rule t[THEN conjunct2, THEN conjunct2, THEN conjunct2, THEN conjunct2, THEN conjunct2,
          THEN conjunct2])
  from a b c d e show ?thesis by (intro conjI) (erule conjunct1 conjunct2 | assumption)+
qed


section \<open>The traversal selector\<close>


lemma generateTraversal_known:
  "(\<forall>v. traversalType \<noteq> invalidOption v) \<Longrightarrow>
     \<exists>t. generateTraversal h to_string layout n3 traversalType info = Inr (Some t)
          \<and> getTraversalType t = traversalType
          \<and> getDataLayout t = layout \<and> getUseNewton3 t = n3"
  by (cases traversalType;
      simp add: generateTraversal_def Let_def make_traversal_def getTraversalType_def)

lemma generateTraversal_unknown:
  "generateTraversal h to_string layout n3 (invalidOption v) info =
     (case exception h (AutoPasException ''Traversal type {} is not a known type!''
                          [ArgString (to_string (invalidOption v))]) of
        Some e \<Rightarrow> Inl e
      | None \<Rightarrow> Inr None)"
  by (simp add: generateTraversal_def Let_def)

text \<open>
  Claim C7, with the exception handler taken into account.  For every option that the
  selector's switch knows, \<^verbatim>\<open>generateTraversal\<close> returns a traversal object, and the object's
  \<^verbatim>\<open>getTraversalType()\<close> is the requested option (its layout and Newton3 flag are the
  requested ones, too).  For a tag outside that set the selector never yields a traversal and
  hands the unknown-option exception to the exception handler: the call ends with the
  \<^verbatim>\<open>AutoPasException\<close> under the throwing behaviour and with an abort under \<^verbatim>\<open>printAbort\<close>;
  under \<^verbatim>\<open>ignore\<close> it returns the null pointer and signals nothing; under
  \<^verbatim>\<open>printCustomAbortFunction\<close> it ends the way the custom function ends, or returns the null
  pointer when that function returns.
\<close>

theorem generateTraversal_selects:
  "((\<forall>v. traversalType \<noteq> invalidOption v) \<longrightarrow>
      (\<exists>t. generateTraversal h to_string layout n3 traversalType info = Inr (Some t)
           \<and> getTraversalType t = traversalType
           \<and> getDataLayout t = layout \<and> getUseNewton3 t = n3))
   \<and> (\<forall>t. generateTraversal h to_string layout n3 (invalidOption v) info \<noteq> Inr (Some t))
   \<and> generateTraversal h to_string layout n3 (invalidOption v) info =
        (case behavior h of
           throwException \<Rightarrow>
             Inl (Thrown (AutoPasException ''Traversal type {} is not a known type!''
                            [ArgString (to_string (invalidOption v))]))
         | printAbort \<Rightarrow> Inl Aborted
         | ignore \<Rightarrow> Inr None
         | printCustomAbortFunction \<Rightarrow>
             (case customAbortFunction h of Some e \<Rightarrow> Inl e | None \<Rightarrow> Inr None))"
proof (intro conjI impI allI)
  assume "\<forall>v. traversalType \<noteq> invalidOption v"
  then show "\<exists>t. generateTraversal h to_string layout n3 traversalType info = Inr (Some t)
           \<and> getTraversalType t = traversalType
           \<and> getDataLayout t = layout \<and> getUseNewton3 t = n3"
    by (rule generateTraversal_known)
next
  fix t
  show "generateTraversal h to_string layout n3 (invalidOption v) info \<noteq> Inr (Some t)"
    unfolding generateTraversal_unknown by (simp split: option.split)
next
  show "generateTraversal h to_string layout n3 (invalidOption v) info =
        (case behavior h of
           throwException \<Rightarrow>
             Inl (Thrown (AutoPasException ''Traversal type {} is not a known type!''
                            [ArgString (to_string (invalidOption v))]))
         | printAbort \<Rightarrow> Inl Aborted
         | ignore \<Rightarrow> Inr None
         | printCustomAbortFunction \<Rightarrow>
             (case customAbortFunction h of Some e \<Rightarrow> Inl e | None \<Rightarrow> Inr None))"
    unfolding generateTraversal_unknown exception_by_behavior
    by (cases "behavior h") simp_all
qed

theorem generateTraversal_selects_witness:
  "(\<exists>t. generateTraversal \<lparr> behavior = throwException, customAbortFunction = None \<rparr>
          (\<lambda>t. ''c18'') soa True c18
          \<lparr> info_dims = (4, 4, 4), info_interactionLength = Finite 1,
            info_cellLength = (Finite 1, Finite 1, Finite 1) \<rparr> = Inr (Some t)
        \<and> getTraversalType t = c18 \<and> getDataLayout t = soa \<and> getUseNewton3 t = True)
   \<and> generateTraversal \<lparr> behavior = printAbort, customAbortFunction = None \<rparr>
          (\<lambda>t. ''-1'') soa True (invalidOption (- 1))
          \<lparr> info_dims = (4, 4, 4), info_interactionLength = Finite 1,
            info_cellLength = (Finite 1, Finite 1, Finite 1) \<rparr> = Inl Aborted"
proof -
  let ?h = "\<lparr> behavior = throwException, customAbortFunction = None \<rparr>"
  let ?a = "\<lparr> behavior = printAbort, customAbortFunction = None \<rparr>"
  let ?i = "\<lparr> info_dims = (4, 4, 4), info_interactionLength = Finite 1,
            info_cellLength = (Finite 1, Finite 1, Finite 1) \<rparr>"
  have k: "c18 \<noteq> invalidOption v" for v by simp
  note one = generateTraversal_selects[of c18 ?h "\<lambda>t. ''c18''" soa True ?i,
               THEN conjunct1, rule_format, OF k]
  have two: "generateTraversal ?a (\<lambda>t. ''-1'') soa True (invalidOption (- 1)) ?i = Inl Aborted"
    using generateTraversal_selects[of c18 ?a "\<lambda>t. ''-1''" soa True ?i "- 1",
               THEN conjunct2, THEN conjunct2]
    by simp
  from one two show ?thesis by (rule conjI)
qed

text \<open>
  With the handler set to \<^verbatim>\<open>ignore\<close>, the selector answers the tag \<^verbatim>\<open>TraversalOption(-1)\<close>
  with the null pointer: no error is signalled.
\<close>

theorem generateTraversal_unknown_tag_ignored:
  "generateTraversal \<lparr> behavior = ignore, customAbortFunction = None \<rparr>
      (\<lambda>t. ''-1'') aos False (invalidOption (- 1))
      \<lparr> info_dims = (4, 4, 4), info_interactionLength = Finite 1,
        info_cellLength = (Finite 1, Finite 1, Finite 1) \<rparr> = Inr None"
  by (simp add: generateTraversal_unknown exception_by_behavior)


section \<open>Loading a cell into the SoA buffer\<close>


lemma length_resize: "length (resize n d xs) = n"
  by (simp add: resize_def)

lemma take_update_last: "k < length xs \<Longrightarrow> take (Suc k) (xs[k := v]) = take k xs @ [v]"
  by (simp add: take_Suc_conv_app_nth)

lemma fill_rows:
  fixes ps :: "Particle list"
  assumes "k \<le> length (ptrArr s)" "k \<le> length (xArr s)" "k \<le> length (yArr s)" "k \<le> length (zArr s)"
    "k \<le> length ps"
  shows "fold (\<lambda>i s.
              s\<lparr> ptrArr := (ptrArr s)[i := addr (ps ! i)],
                 xArr := (xArr s)[i := fst (getR (ps ! i))],
                 yArr := (yArr s)[i := fst (snd (getR (ps ! i)))],
                 zArr := (zArr s)[i := snd (snd (getR (ps ! i)))] \<rparr>) [0 ..< k] s =
         \<lparr> ptrArr = map addr (take k ps) @ drop k (ptrArr s),
           xArr = map (\<lambda>p. fst (getR p)) (take k ps) @ drop k (xArr s),
           yArr = map (\<lambda>p. fst (snd (getR p))) (take k ps) @ drop k (yArr s),
           zArr = map (\<lambda>p. snd (snd (getR p))) (take k ps) @ drop k (zArr s) \<rparr>"
  using assms
proof (induction k)
  case 0
  then show ?case by simp
next
  case (Suc k)
  have upd: "(map f (take k ps) @ drop k xs)[k := f (ps ! k)] = map f (take (Suc k) ps) @ drop (Suc k) xs"
    if "Suc k \<le> length xs" for f :: "Particle \<Rightarrow> 'c" and xs :: "'c list"
    using that Suc.prems(5)
    by (simp add: list_update_append take_Suc_conv_app_nth drop_Suc upd_conv_take_nth_drop
        flip: tl_drop)
  show ?case
    using Suc
    by (simp add: upd[of _ addr] upd[of _ "\<lambda>p. fst (getR p)"]
        upd[of _ "\<lambda>p. fst (snd (getR p))"] upd[of _ "\<lambda>p. snd (snd (getR p))"])
qed


lemma SoALoader_zero:
  "SoALoader h cell buf 0 =
     Inr (cell, \<lparr> ptrArr = map addr (particles cell),
                  xArr = map (\<lambda>p. fst (getR p)) (particles cell),
                  yArr = map (\<lambda>p. fst (snd (getR p))) (particles cell),
                  zArr = map (\<lambda>p. snd (snd (getR p))) (particles cell) \<rparr>)"
proof -
  let ?n = "length (particles cell)"
  let ?s1 = "resizeArrays ?n buf"
  have len: "length (ptrArr ?s1) = ?n" "length (xArr ?s1) = ?n" "length (yArr ?s1) = ?n"
    "length (zArr ?s1) = ?n"
    by (simp_all add: resizeArrays_def length_resize)
  have empty: "?s1 = \<lparr> ptrArr = [], xArr = [], yArr = [], zArr = [] \<rparr>" if "?n = 0"
    using that by (simp add: resizeArrays_def resize_def)
  note fill = fill_rows[of ?n ?s1 "particles cell"]
  show ?thesis
    using len empty fill by (simp add: SoALoader_def numParticles_def Let_def)
qed


lemma SoALoader_nonzero:
  "offset \<noteq> 0 \<Longrightarrow>
     SoALoader h cell buf offset =
       (case exception h (AutoPasException ''offset must be 0, is: {}'' [ArgNat offset]) of
          Some e \<Rightarrow> Inl e
        | None \<Rightarrow> SoALoader h cell buf 0)"
  by (simp add: SoALoader_def split: option.split)

text \<open>
  Claim C10, with the exception handler taken into account.  \<^verbatim>\<open>SoALoader\<close> hands an
  exception to the exception handler exactly when the offset is not zero.  The call then ends
  with that \<^verbatim>\<open>AutoPasException\<close> under the throwing behaviour and with an abort under
  \<^verbatim>\<open>printAbort\<close>; under \<^verbatim>\<open>ignore\<close>, and when a custom abort function returns, nothing is
  raised and the loader goes on as for offset zero, loading from row 0.  With offset zero,
  under every behaviour, it returns the cell unchanged and a buffer whose arrays have exactly
  one row per particle of the cell, row \<open>i\<close> holding the pointer and the x, y and z position of
  the \<open>i\<close>-th particle in iteration order.  \<^verbatim>\<open>SoAExtractor\<close> changes neither the cell nor the
  buffer.
\<close>

theorem SoALoader_offset_zero_only:
  "SoALoader h cell buf offset =
     (if offset = 0 then Inr (cell, loadedSoA (particles cell))
      else case behavior h of
             throwException \<Rightarrow>
               Inl (Thrown (AutoPasException ''offset must be 0, is: {}'' [ArgNat offset]))
           | printAbort \<Rightarrow> Inl Aborted
           | ignore \<Rightarrow> Inr (cell, loadedSoA (particles cell))
           | printCustomAbortFunction \<Rightarrow>
               (case customAbortFunction h of
                  Some e \<Rightarrow> Inl e
                | None \<Rightarrow> Inr (cell, loadedSoA (particles cell))))
   \<and> (\<exists>buf'. SoALoader h cell buf 0 = Inr (cell, buf')
         \<and> getNumParticles buf' = numParticles cell
         \<and> length (xArr buf') = numParticles cell
         \<and> length (yArr buf') = numParticles cell
         \<and> length (zArr buf') = numParticles cell
         \<and> (\<forall>i < numParticles cell.
               ptrArr buf' ! i = addr (particles cell ! i)
             \<and> (xArr buf' ! i, yArr buf' ! i, zArr buf' ! i) = getR (particles cell ! i)))
   \<and> SoAExtractor cell buf offset = (cell, buf)"
proof (intro conjI)
  show "SoALoader h cell buf offset =
     (if offset = 0 then Inr (cell, loadedSoA (particles cell))
      else case behavior h of
             throwException \<Rightarrow>
               Inl (Thrown (AutoPasException ''offset must be 0, is: {}'' [ArgNat offset]))
           | printAbort \<Rightarrow> Inl Aborted
           | ignore \<Rightarrow> Inr (cell, loadedSoA (particles cell))
           | printCustomAbortFunction \<Rightarrow>
               (case customAbortFunction h of
                  Some e \<Rightarrow> Inl e
                | None \<Rightarrow> Inr (cell, loadedSoA (particles cell))))"
  proof (cases "offset = 0")
    case True
    then show ?thesis by (simp add: SoALoader_zero loadedSoA_def)
  next
    case False
    then show ?thesis
      unfolding SoALoader_nonzero[OF False] exception_by_behavior
      by (cases "behavior h") (simp_all add: SoALoader_zero loadedSoA_def split: option.split)
  qed
next
  show "\<exists>buf'. SoALoader h cell buf 0 = Inr (cell, buf')
         \<and> getNumParticles buf' = numParticles cell
         \<and> length (xArr buf') = numParticles cell
         \<and> length (yArr buf') = numParticles cell
         \<and> length (zArr buf') = numParticles cell
         \<and> (\<forall>i < numParticles cell.
               ptrArr buf' ! i = addr (particles cell ! i)
             \<and> (xArr buf' ! i, yArr buf' ! i, zArr buf' ! i) = getR (particles cell ! i))"
    by (simp add: SoALoader_zero getNumParticles_def numParticles_def)
next
  show "SoAExtractor cell buf offset = (cell, buf)"
    by (simp add: SoAExtractor_def)
qed

theorem SoALoader_offset_zero_only_witness:
  "SoALoader \<lparr> behavior = throwException, customAbortFunction = None \<rparr>
      \<lparr> particles = [\<lparr> addr = 7, getR = (Finite 1, Finite 2, Finite 3) \<rparr>], particleSoABuffer = () \<rparr>
      \<lparr> ptrArr = [], xArr = [], yArr = [], zArr = [] \<rparr> 4
     = Inl (Thrown (AutoPasException ''offset must be 0, is: {}'' [ArgNat 4]))
   \<and> (\<exists>buf'. SoALoader \<lparr> behavior = throwException, customAbortFunction = None \<rparr>
      \<lparr> particles = [\<lparr> addr = 7, getR = (Finite 1, Finite 2, Finite 3) \<rparr>], particleSoABuffer = () \<rparr>
      \<lparr> ptrArr = [], xArr = [], yArr = [], zArr = [] \<rparr> 0
     = Inr (\<lparr> particles = [\<lparr> addr = 7, getR = (Finite 1, Finite 2, Finite 3) \<rparr>],
             particleSoABuffer = () \<rparr>, buf')
     \<and> ptrArr buf' ! 0 = 7
     \<and> (xArr buf' ! 0, yArr buf' ! 0, zArr buf' ! 0) = (Finite 1, Finite 2, Finite 3))"
proof -
  let ?h = "\<lparr> behavior = throwException, customAbortFunction = None \<rparr>"
  let ?c = "\<lparr> particles = [\<lparr> addr = 7, getR = (Finite 1, Finite 2, Finite 3) \<rparr>],
             particleSoABuffer = () \<rparr>"
  let ?b = "\<lparr> ptrArr = [], xArr = [], yArr = [], zArr = [] \<rparr>"
  note t = SoALoader_offset_zero_only[of ?h ?c ?b 4]
  have one: "SoALoader ?h ?c ?b 4
               = Inl (Thrown (AutoPasException ''offset must be 0, is: {}'' [ArgNat 4]))"
    using t[THEN conjunct1] by simp
  from t[THEN conjunct2, THEN conjunct1]
  obtain buf' where l: "SoALoader ?h ?c ?b 0 = Inr (?c, buf')"
    and r: "\<forall>i < numParticles ?c. ptrArr buf' ! i = addr (particles ?c ! i)
             \<and> (xArr buf' ! i, yArr buf' ! i, zArr buf' ! i) = getR (particles ?c ! i)"
    by (elim exE conjE)
  have z: "(0::nat) < numParticles ?c" by (simp add: numParticles_def)
  have "ptrArr buf' ! 0 = addr (particles ?c ! 0)
             \<and> (xArr buf' ! 0, yArr buf' ! 0, zArr buf' ! 0) = getR (particles ?c ! 0)"
    by (rule r[rule_format, OF z])
  then have two: "ptrArr buf' ! 0 = 7
      \<and> (xArr buf' ! 0, yArr buf' ! 0, zArr buf' ! 0) = (Finite 1, Finite 2, Finite 3)"
    by simp
  show ?thesis
    by (rule conjI[OF one]) (rule exI[of _ buf'], rule conjI[OF l two])
qed

text \<open>
  With the handler set to \<^verbatim>\<open>ignore\<close>, a call with offset 4 raises nothing: it loads the
  particle into row 0 and returns.
\<close>

theorem SoALoader_ignore_no_exception:
  "SoALoader \<lparr> behavior = ignore, customAbortFunction = None \<rparr>
      \<lparr> particles = [\<lparr> addr = 7, getR = (Finite 1, Finite 2, Finite 3) \<rparr>], particleSoABuffer = () \<rparr>
      \<lparr> ptrArr = [], xArr = [], yArr = [], zArr = [] \<rparr> 4
     = Inr (\<lparr> particles = [\<lparr> addr = 7, getR = (Finite 1, Finite 2, Finite 3) \<rparr>],
             particleSoABuffer = () \<rparr>,
            \<lparr> ptrArr = [7], xArr = [Finite 1], yArr = [Finite 2], zArr = [Finite 3] \<rparr>)"
  by (simp add: SoALoader_nonzero exception_by_behavior SoALoader_zero)


section \<open>Building neighbour lists with the pair-generating functor\<close>

lemma addPairs_Nil [simp]: "addPairs [] l = l"
  by (simp add: addPairs_def)


lemma addPairs_single: "addPairs [(a, b)] l = addPair l a b"
  by (simp add: addPairs_def)



lemma addPairs_other: "a \<notin> fst ` set ps \<Longrightarrow> addPairs ps l a = l a"
proof (induction ps arbitrary: l)
  case Nil
  then show ?case by simp
next
  case (Cons p ps)
  have "addPairs (p # ps) l = addPairs ps (addPair l (fst p) (snd p))"
    by (simp add: addPairs_def)
  with Cons show ?case by (auto simp: addPair_def)
qed

lemma sum_list_upt_pick:
  "(\<Sum>i\<leftarrow>[a..<b]. if i = x then f i else (0::nat)) = (if a \<le> x \<and> x < b then f x else 0)"
  by (induction b) auto

lemma sum_list_append_pick:
  "a \<le> b \<Longrightarrow> (\<Sum>i\<leftarrow>[0..<a] @ [Suc a..<b]. if i = x then f i else (0::nat))
     = (if x \<noteq> a \<and> x < b then f x else 0)"
  by (auto simp: sum_list_upt_pick)

lemma count_guarded_single:
  "count_list (if w then [p] else []) c = (if p = c \<and> w then 1 else 0)"
  by simp




















section \<open>Pruning of the offset schedules\<close>














lemma c18_push_length:
  "length (c18_push cs y x e) = length cs"
  "length (c18_push cs y x e ! k) = length (cs ! k)"
  by (cases "y < length cs"; cases "x < length (cs ! y)";
      simp add: c18_push_def nth_list_update list_update_beyond)+


lemma c18_pushAll_Nil [simp]: "c18_pushAll [] cs = cs"
  by (simp add: c18_pushAll_def)




lemma c18_pushAll_length:
  "length (c18_pushAll es cs) = length cs"
  "length (c18_pushAll es cs ! k) = length (cs ! k)"
  by (induction es arbitrary: cs) (simp_all add: c18_pushAll_def c18_push_length)















section \<open>The SoA neighbor list mirrors the AoS neighbor list\<close>

lemma row_map_prefix:
  assumes "distinct container" "k \<le> length container"
  shows "fold (\<lambda>i m. m(container ! i \<mapsto> i)) [0 ..< k] Map.empty p =
           (if p \<in> set (take k container) then Some (THE i. i < k \<and> container ! i = p) else None)"
  using assms(2)
proof (induction k)
  case 0
  then show ?case by simp
next
  case (Suc k)
  have k: "k < length container" using Suc.prems by simp
  have notin: "container ! k \<notin> set (take k container)"
    using assms(1) k by (metis distinct_take id_take_nth_drop not_distinct_conv_prefix take_Suc_conv_app_nth distinct_append distinct.simps(2) disjoint_iff list.set_intros(1))
  show ?case
  proof (cases "p = container ! k")
    case True
    have "(THE i. i < Suc k \<and> container ! i = container ! k) = k"
      using assms(1) k by (auto simp: nth_eq_iff_index_eq intro!: the_equality)
    with True k show ?thesis
      by (simp add: take_Suc_conv_app_nth)
  next
    case False
    have "(THE i. i < Suc k \<and> container ! i = p) = (THE i. i < k \<and> container ! i = p)"
      using False by (metis less_Suc_eq)
    with False k Suc show ?thesis
      by (simp add: take_Suc_conv_app_nth)
  qed
qed

lemma row_map:
  assumes "distinct container"
  shows "i < length container \<Longrightarrow>
           fold (\<lambda>i m. m(container ! i \<mapsto> i)) [0 ..< length container] Map.empty (container ! i) = Some i"
    and "dom (fold (\<lambda>i m. m(container ! i \<mapsto> i)) [0 ..< length container] Map.empty) = set container"
proof -
  let ?m = "fold (\<lambda>i m. m(container ! i \<mapsto> i)) [0 ..< length container] Map.empty"
  note p = row_map_prefix[OF assms order_refl]
  show "?m (container ! i) = Some i" if "i < length container"
  proof -
    have "(THE j. j < length container \<and> container ! j = container ! i) = i"
      using assms that by (auto simp: nth_eq_iff_index_eq intro!: the_equality)
    with that show ?thesis by (simp add: p)
  qed
  show "dom ?m = set container"
    by (auto simp: p dom_def)
qed

lemma rewriteNeighbors_rows:
  assumes "set ns \<subseteq> dom m" "j + length ns \<le> length row"
  shows "rewriteNeighbors ns j m row =
           Inr (take j row @ map (\<lambda>q. the (m q)) ns @ drop (j + length ns) row)"
  using assms
proof (induction ns arbitrary: j row)
  case Nil
  then show ?case by simp
next
  case (Cons q ns)
  from Cons.prems obtain r where r: "m q = Some r" by auto
  have j: "j < length row" using Cons.prems by simp
  have "rewriteNeighbors (q # ns) j m row = rewriteNeighbors ns (Suc j) m (row[j := r])"
    using r j by simp
  also have "\<dots> = Inr (take (Suc j) (row[j := r]) @ map (\<lambda>q. the (m q)) ns
                        @ drop (Suc j + length ns) (row[j := r]))"
    using Cons.prems by (intro Cons.IH) simp_all
  also have "take (Suc j) (row[j := r]) = take j row @ [r]"
    using j by (simp add: take_Suc_conv_app_nth)
  finally show ?case using r by simp
qed

lemma rewriteNeighbors_all:
  assumes "set ns \<subseteq> dom m"
  shows "rewriteNeighbors ns 0 m (resize (length ns) d old) = Inr (map (\<lambda>q. the (m q)) ns)"
  using rewriteNeighbors_rows[OF assms, of 0 "resize (length ns) d old"]
  by (simp add: resize_def)


lemma rewriteLists_rows:
  assumes "distinct (map fst als)"
    and "\<And>p l. (p, l) \<in> set als \<Longrightarrow> (\<exists>r. m p = Some r \<and> r < length soaLists) \<and> set l \<subseteq> dom m"
    and "inj_on m (fst ` set als)"
  shows "\<exists>soa'. rewriteLists als m soaLists = Inr (m, soa')
           \<and> length soa' = length soaLists
           \<and> (\<forall>(p, l) \<in> set als. soa' ! the (m p) = map (\<lambda>q. the (m q)) l)
           \<and> (\<forall>r < length soaLists. r \<notin> (\<lambda>p. the (m p)) ` fst ` set als \<longrightarrow> soa' ! r = soaLists ! r)"
  using assms
proof (induction als arbitrary: soaLists)
  case Nil
  then show ?case by simp
next
  case (Cons a als)
  obtain p l where a: "a = (p, l)" by (cases a)
  from Cons.prems(2)[of p l] a obtain r where
    r: "m p = Some r" "r < length soaLists" and l: "set l \<subseteq> dom m"
    by auto
  let ?row = "map (\<lambda>q. the (m q)) l"
  let ?soa1 = "soaLists[r := ?row]"
  have step: "rewriteLists (a # als) m soaLists = rewriteLists als m ?soa1"
    using r a rewriteNeighbors_all[OF l, of 0 "soaLists ! r"]
    by (simp add: Let_def)
  have d: "distinct (map fst als)" and pn: "p \<notin> fst ` set als"
    using Cons.prems(1) a by auto
  have pre: "(\<exists>r. m q = Some r \<and> r < length ?soa1) \<and> set k \<subseteq> dom m" if "(q, k) \<in> set als" for q k
    using Cons.prems(2)[of q k] that by simp
  have inj: "inj_on m (fst ` set als)"
    using Cons.prems(3) by (rule inj_on_subset) auto
  from Cons.IH[OF d pre inj] obtain soa' where
    s: "rewriteLists als m ?soa1 = Inr (m, soa')" "length soa' = length ?soa1"
      "\<forall>(q, k) \<in> set als. soa' ! the (m q) = map (\<lambda>q. the (m q)) k"
      "\<forall>t < length ?soa1. t \<notin> (\<lambda>p. the (m p)) ` fst ` set als \<longrightarrow> soa' ! t = ?soa1 ! t"
    by blast
  have rn: "r \<notin> (\<lambda>p. the (m p)) ` fst ` set als"
  proof
    assume "r \<in> (\<lambda>p. the (m p)) ` fst ` set als"
    then obtain q k where q: "(q, k) \<in> set als" "r = the (m q)" by auto
    from Cons.prems(2)[of q k] q obtain r' where "m q = Some r'" by auto
    with q r have "m q = m p" by simp
    moreover have "q \<in> fst ` set (a # als)" "p \<in> fst ` set (a # als)"
      using q a by force+
    ultimately have "q = p" using Cons.prems(3) by (meson inj_onD)
    with q pn show False by force
  qed
  have here: "soa' ! the (m p) = ?row"
    using s(4) r rn by simp
  have others: "soa' ! t = soaLists ! t"
    if "t < length soaLists" "t \<notin> (\<lambda>p. the (m p)) ` fst ` set (a # als)" for t
  proof -
    have "t \<noteq> r" using that(2) a r by force
    moreover have "t \<notin> (\<lambda>p. the (m p)) ` fst ` set als" using that(2) by auto
    ultimately show ?thesis using s(4) that(1) by simp
  qed
  show ?case
    using step s(1,2,3) here others a by auto
qed


lemma length_eq_of_distinct_keys:
  assumes "distinct container" "distinct (map fst als)" "set (map fst als) = set container"
  shows "length als = length (container :: nat list)"
proof -
  have "length als = length (map fst als)" by simp
  also have "\<dots> = card (set (map fst als))" using assms(2) by (simp only: distinct_card)
  also have "\<dots> = card (set container)" using assms(3) by simp
  also have "\<dots> = length container" using assms(1) by (simp only: distinct_card)
  finally show ?thesis .
qed

text \<open>
  Claim C4.  After \<^verbatim>\<open>generateSoAListFromAoSVerletLists\<close> has run, the SoA neighbor list is the
  AoS neighbor list under the row mapping: the \<open>i\<close>-th particle of the container's iteration
  order is assigned row \<open>i\<close>, and for every particle \<open>p\<close> with AoS list \<open>l\<close> the SoA row of \<open>p\<close>
  has the length of \<open>l\<close> and its \<open>k\<close>-th entry is the row of the \<open>k\<close>-th partner in \<open>l\<close>.  The
  hypotheses are what the build of the AoS list establishes: the container yields every particle
  once, the AoS map has one entry per particle of the container, and every partner is a
  particle of the container.  Under them the function returns normally.
\<close>

theorem soa_list_mirrors_aos_list:
  assumes "distinct container"
    and "distinct (map fst (aosNeighborLists v))"
    and "set (map fst (aosNeighborLists v)) = set container"
    and "\<forall>(p, l) \<in> set (aosNeighborLists v). set l \<subseteq> set container"
  shows "\<exists>v'. generateSoAListFromAoSVerletLists container v = Inr v'
           \<and> soaListIsValid v'
           \<and> aosNeighborLists v' = aosNeighborLists v
           \<and> length (soaNeighborLists v') = length container
           \<and> (\<forall>i < length container. aos2soaMap v' (container ! i) = Some i)
           \<and> (\<forall>(p, l) \<in> set (aosNeighborLists v).
                 \<exists>i < length container. container ! i = p
                   \<and> length (soaNeighborLists v' ! i) = length l
                   \<and> (\<forall>k < length l. aos2soaMap v' (l ! k) = Some (soaNeighborLists v' ! i ! k)))"
proof -
  let ?als = "aosNeighborLists v"
  let ?m = "fold (\<lambda>i m. m(container ! i \<mapsto> i)) [0 ..< length container] Map.empty"
  let ?lists1 = "resize (length ?als) [] (soaNeighborLists v)"
  have len: "length ?als = length container"
    using assms(1,2,3) by (rule length_eq_of_distinct_keys)
  have len1: "length ?lists1 = length container"
    using len by (simp add: length_resize)
  have rows: "?m (container ! i) = Some i" if "i < length container" for i
    using row_map[OF assms(1)] that by blast
  have dom: "dom ?m = set container"
    using row_map[OF assms(1)] by blast
  have pre: "(\<exists>r. ?m p = Some r \<and> r < length ?lists1) \<and> set l \<subseteq> dom ?m"
    if "(p, l) \<in> set ?als" for p l
  proof -
    have "p \<in> set container" using that assms(3) by force
    then obtain i where "i < length container" "container ! i = p"
      by (auto simp add: in_set_conv_nth)
    then have "?m p = Some i \<and> i < length ?lists1" using rows len1 by auto
    moreover have "set l \<subseteq> dom ?m" using assms(4) that dom by auto
    ultimately show ?thesis by blast
  qed
  have inj: "inj_on ?m (fst ` set ?als)"
  proof (rule inj_onI)
    fix p q assume "p \<in> fst ` set ?als" "q \<in> fst ` set ?als" "?m p = ?m q"
    then have "p \<in> set container" "q \<in> set container" using assms(3) by auto
    then obtain i j where "i < length container" "container ! i = p"
      "j < length container" "container ! j = q"
      by (auto simp add: in_set_conv_nth)
    with rows \<open>?m p = ?m q\<close> show "p = q" by fastforce
  qed
  from rewriteLists_rows[OF assms(2) pre inj] obtain soa' where
    s: "rewriteLists ?als ?m ?lists1 = Inr (?m, soa')" "length soa' = length ?lists1"
       "\<forall>(p, l) \<in> set ?als. soa' ! the (?m p) = map (\<lambda>q. the (?m q)) l"
    by blast
  let ?v' = "v\<lparr> aos2soaMap := ?m, soaNeighborLists := soa', soaListIsValid := True \<rparr>"
  have run: "generateSoAListFromAoSVerletLists container v = Inr ?v'"
    using s(1) by (simp add: generateSoAListFromAoSVerletLists_def Let_def)
  have each: "\<exists>i < length container. container ! i = p
                   \<and> length (soa' ! i) = length l
                   \<and> (\<forall>k < length l. ?m (l ! k) = Some (soa' ! i ! k))"
    if pl: "(p, l) \<in> set ?als" for p l
  proof -
    have "p \<in> set container" using pl assms(3) by force
    then obtain i where i: "i < length container" "container ! i = p"
      by (auto simp add: in_set_conv_nth)
    then have mp: "?m p = Some i" using rows by auto
    have row: "soa' ! i = map (\<lambda>q. the (?m q)) l" using s(3) pl mp by force
    have "?m (l ! k) = Some (soa' ! i ! k)" if "k < length l" for k
    proof -
      have "set l \<subseteq> dom ?m" using pre[OF pl] by blast
      moreover have "l ! k \<in> set l" using that by simp
      ultimately have "l ! k \<in> dom ?m" by blast
      then obtain r where "?m (l ! k) = Some r" by blast
      then show ?thesis using row that by simp
    qed
    then show ?thesis using i row by auto
  qed
  show ?thesis
    apply (rule exI[of _ ?v'])
    apply (intro conjI)
         apply (rule run)
        apply simp
       apply simp
      apply (simp add: s(2) len1)
     apply (simp add: rows)
    using each apply auto
    done
qed


theorem soa_list_mirrors_aos_list_witness:
  "distinct [10, 20, 30 :: nat]
   \<and> distinct (map fst (aosNeighborLists
         \<lparr> aosNeighborLists = [(20, [10, 30]), (10, [20]), (30, [])], aos2soaMap = Map.empty,
           soaNeighborLists = [], soaListIsValid = False, neighborListIsValid = True \<rparr>))
   \<and> set (map fst (aosNeighborLists
         \<lparr> aosNeighborLists = [(20, [10, 30]), (10, [20]), (30, [])], aos2soaMap = Map.empty,
           soaNeighborLists = [], soaListIsValid = False, neighborListIsValid = True \<rparr>)) = set [10, 20, 30]
   \<and> (\<exists>v'. generateSoAListFromAoSVerletLists [10, 20, 30]
         \<lparr> aosNeighborLists = [(20, [10, 30]), (10, [20]), (30, [])], aos2soaMap = Map.empty,
           soaNeighborLists = [], soaListIsValid = False, neighborListIsValid = True \<rparr> = Inr v'
       \<and> soaListIsValid v'
       \<and> length (soaNeighborLists v') = 3
       \<and> (\<forall>i < 3. aos2soaMap v' ([10, 20, 30] ! i) = Some i))"
proof -
  let ?c = "[10, 20, 30 :: nat]"
  let ?v = "\<lparr> aosNeighborLists = [(20, [10, 30]), (10, [20]), (30, [])], aos2soaMap = Map.empty,
           soaNeighborLists = [], soaListIsValid = False, neighborListIsValid = True \<rparr>"
  have h1: "distinct ?c" by simp
  have h2: "distinct (map fst (aosNeighborLists ?v))" by simp
  have h3: "set (map fst (aosNeighborLists ?v)) = set ?c" by auto
  have h4: "\<forall>(p, l) \<in> set (aosNeighborLists ?v). set l \<subseteq> set ?c" by simp
  have l3: "length ?c = 3" by simp
  from soa_list_mirrors_aos_list[OF h1 h2 h3 h4] obtain v' where
    v: "generateSoAListFromAoSVerletLists ?c ?v = Inr v'" "soaListIsValid v'"
       "length (soaNeighborLists v') = length ?c"
       "\<forall>i < length ?c. aos2soaMap v' (?c ! i) = Some i"
    by blast
  have "\<exists>v'. generateSoAListFromAoSVerletLists ?c ?v = Inr v' \<and> soaListIsValid v'
       \<and> length (soaNeighborLists v') = 3 \<and> (\<forall>i < 3. aos2soaMap v' (?c ! i) = Some i)"
    apply (rule exI[of _ v'])
    using v unfolding l3 apply (intro conjI)
       apply assumption+
    done
  with h1 h2 h3 show ?thesis by (intro conjI)
qed

section \<open>The validity check of the neighbor lists\<close>

text \<open>
  Claim C6.  \<^verbatim>\<open>checkNeighborListsAreValid\<close> reads three things and nothing else: the flag
  \<^verbatim>\<open>_neighborListIsValid\<close>, the answer of \<^verbatim>\<open>isContainerUpdateNeeded()\<close>, and the verdict of the
  validity-checker functor after the C08 traversal over the AoS lists with the cutoff.  It
  answers true exactly if the flag is set, no container update is needed and the functor
  found the lists valid.  So an added or removed particle makes it answer false only through
  the flag: after a removal that leaves the flag set (the class comment of
  \<^verbatim>\<open>VerletLists\<close> notes that deleting particles does not invalidate the lists), with no
  particle moved, the answer is the verdict of the functor.
\<close>

theorem checkNeighborListsAreValid_decides:
  "checkNeighborListsAreValid isContainerUpdateNeeded validityTraversal cutoff v useNewton3
     \<longleftrightarrow> neighborListIsValid v \<and> \<not> isContainerUpdateNeeded
          \<and> validityTraversal (aosNeighborLists v) cutoff"
  by (simp add: checkNeighborListsAreValid_def)


end
